theory Spec2Isabelle
  imports Main
begin

section \<open>Python values used by \<^verbatim>\<open>post_generator.py\<close>\<close>

text \<open>
  A Python \<^verbatim>\<open>str\<close> is a sequence of Unicode code points and \<^verbatim>\<open>len\<close> counts code
  points, so a string is a list of code points (natural numbers). \<open>ustr\<close> turns an
  ASCII literal into such a string.
\<close>

type_synonym pystr = "nat list"

definition ustr :: "string \<Rightarrow> pystr" where
  "ustr cs = map of_char cs"

text \<open>
  The arguments of both functions are checked with \<^verbatim>\<open>isinstance\<close>, so they are
  dynamically typed values. A \<^verbatim>\<open>set\<close> of strings is kept as the list of its elements in
  the order in which \<^verbatim>\<open>set.pop()\<close> hands them out: that order is arbitrary, and every
  statement below holds for every such list.
\<close>

datatype pyval = StrV pystr | IntV int | NoneV | ListV "pystr list" | SetV "pystr list"

datatype error = TypeError | ValueError

section \<open>The string methods the code calls\<close>

text \<open>
  \<^verbatim>\<open>str.split()\<close> and \<^verbatim>\<open>str.strip()\<close> without arguments work on the code points for
  which \<^verbatim>\<open>str.isspace\<close> holds.
\<close>

definition py_isspace :: "nat \<Rightarrow> bool" where
  "py_isspace c =
     ((9 \<le> c \<and> c \<le> 13) \<or> (28 \<le> c \<and> c \<le> 32) \<or> c = 133 \<or> c = 160 \<or> c = 5760
      \<or> (8192 \<le> c \<and> c \<le> 8202) \<or> c = 8232 \<or> c = 8233 \<or> c = 8239 \<or> c = 8287
      \<or> c = 12288)"

text \<open>\<^verbatim>\<open>s.split()\<close>: the maximal runs of non-whitespace code points, in order.\<close>

function split_ws :: "pystr \<Rightarrow> pystr list" where
  "split_ws s =
     (case dropWhile py_isspace s of
        [] \<Rightarrow> []
      | c # r \<Rightarrow> (c # takeWhile (\<lambda>x. \<not> py_isspace x) r)
                 # split_ws (dropWhile (\<lambda>x. \<not> py_isspace x) r))"
  by pat_completeness auto
termination
proof (relation "measure length")
  show "wf (measure length)" by simp
next
  fix s :: pystr and c r
  assume "dropWhile py_isspace s = c # r"
  then have "length r < length s"
    using length_dropWhile_le [of py_isspace s] by simp
  moreover have "length (dropWhile (\<lambda>x. \<not> py_isspace x) r) \<le> length r"
    by (rule length_dropWhile_le)
  ultimately show "(dropWhile (\<lambda>x. \<not> py_isspace x) r, s) \<in> measure length"
    by simp
qed

declare split_ws.simps [simp del]

text \<open>\<^verbatim>\<open>s.split(sep)\<close> for a one-character separator: empty pieces are kept, and
  the empty string gives one empty piece.\<close>

function split_sep :: "nat \<Rightarrow> pystr \<Rightarrow> pystr list" where
  "split_sep sep s =
     takeWhile (\<lambda>x. x \<noteq> sep) s
     # (case dropWhile (\<lambda>x. x \<noteq> sep) s of
          [] \<Rightarrow> []
        | c # r \<Rightarrow> split_sep sep r)"
  by pat_completeness auto
termination
proof (relation "measure (\<lambda>(sep, s). length s)")
  show "wf (measure (\<lambda>(sep, s). length s))" by simp
next
  fix sep :: nat and s :: pystr and c r
  assume "dropWhile (\<lambda>x. x \<noteq> sep) s = c # r"
  then have "length r < length s"
    using length_dropWhile_le [of "\<lambda>x. x \<noteq> sep" s] by simp
  then show "((sep, r), (sep, s)) \<in> measure (\<lambda>(sep, s). length s)"
    by simp
qed

declare split_sep.simps [simp del]

text \<open>\<^verbatim>\<open>s.strip()\<close>: leading and trailing whitespace removed.\<close>

definition strip :: "pystr \<Rightarrow> pystr" where
  "strip s = rev (dropWhile py_isspace (rev (dropWhile py_isspace s)))"

text \<open>\<^verbatim>\<open>s.replace(' ', '')\<close>: every occurrence of U+0020 removed.\<close>

definition replace_space :: "pystr \<Rightarrow> pystr" where
  "replace_space s = filter (\<lambda>x. x \<noteq> 32) s"

text \<open>\<^verbatim>\<open>s.startswith('#')\<close> and \<^verbatim>\<open>s.removeprefix('#')\<close>; \<open>#\<close> is code point 35.\<close>

fun startswith_hash :: "pystr \<Rightarrow> bool" where
  "startswith_hash [] = False"
| "startswith_hash (c # r) = (c = 35)"

fun removeprefix_hash :: "pystr \<Rightarrow> pystr" where
  "removeprefix_hash [] = []"
| "removeprefix_hash (c # r) = (if c = 35 then r else c # r)"

section \<open>\<^verbatim>\<open>parse_hashtags\<close>\<close>

definition parse_hashtags :: "pyval \<Rightarrow> pyval \<Rightarrow> error + pystr set" where
  "parse_hashtags string format =
     (case string of
        StrV s \<Rightarrow>
          if s = [] then Inr {}
          else if format = StrV (ustr ''comma'')
            then Inr ((\<lambda>v. 35 # replace_space v) ` set (split_sep 44 s))
          else if format = StrV (ustr ''space'')
            then Inr ((\<lambda>v. 35 # removeprefix_hash (strip v)) ` set (split_ws s))
          else if format = StrV (ustr ''hash'')
            then Inr (strip ` set (filter startswith_hash (split_ws s)))
          else Inl ValueError
      | _ \<Rightarrow> Inl TypeError)"

section \<open>\<^verbatim>\<open>add_hashtags\<close>\<close>

text \<open>
  The \<^verbatim>\<open>while hashtags:\<close> loop. Its state is the text, the elements still in the set
  (next to be popped first) and the number of times the loop body has run so far; the
  result is that state when the loop is left, by exhaustion or by \<^verbatim>\<open>break\<close>.
\<close>

fun add_hashtags_loop :: "pystr \<Rightarrow> pystr list \<Rightarrow> int \<Rightarrow> nat \<Rightarrow> pystr \<times> pystr list \<times> nat" where
  "add_hashtags_loop text [] lim n = (text, [], n)"
| "add_hashtags_loop text (ht # rest) lim n =
     (if int (length text) + int (length ht) + 1 < lim
      then add_hashtags_loop (text @ [32] @ ht) rest lim (Suc n)
      else (text, rest, Suc n))"

text \<open>
  The call returns the string, or raises; the second component is the object passed as
  \<^verbatim>\<open>hashtags\<close> as the caller finds it afterwards.
\<close>

definition add_hashtags :: "pyval \<Rightarrow> pyval \<Rightarrow> int \<Rightarrow> (error + pystr) \<times> pyval" where
  "add_hashtags text hashtags lim =
     (case text of
        StrV t \<Rightarrow>
          (case hashtags of
             SetV hs \<Rightarrow>
               (case add_hashtags_loop t hs lim 0 of
                  (t', hs', n) \<Rightarrow> (Inr t', SetV hs'))
           | _ \<Rightarrow> (Inl TypeError, hashtags))
      | _ \<Rightarrow> (Inl TypeError, hashtags))"

text \<open>The number of iterations the loop of a call makes.\<close>

definition add_hashtags_iterations :: "pystr \<Rightarrow> pystr list \<Rightarrow> int \<Rightarrow> nat" where
  "add_hashtags_iterations t hs lim = snd (snd (add_hashtags_loop t hs lim 0))"

section \<open>Notions used to state the properties\<close>

text \<open>The blocks \<^verbatim>\<open>' ' + ht\<close> the loop appends, for a list of hashtags, one after another.\<close>

definition join_tags :: "pystr list \<Rightarrow> pystr" where
  "join_tags hs = concat (map (\<lambda>h. [32] @ h) hs)"

text \<open>A string that starts with \<open>#\<close> and whose second code point, if any, is not \<open>#\<close>.\<close>

fun exactly_one_hash :: "pystr \<Rightarrow> bool" where
  "exactly_one_hash [] = False"
| "exactly_one_hash [c] = (c = 35)"
| "exactly_one_hash (c # d # r) = (c = 35 \<and> d \<noteq> 35)"

text \<open>
  The comma mode as the specification words it: the pieces between commas, each with
  all its whitespace removed and \<open>#\<close> put in front.
\<close>

definition comma_spec :: "pystr \<Rightarrow> pystr set" where
  "comma_spec s = (\<lambda>v. 35 # filter (\<lambda>x. \<not> py_isspace x) v) ` set (split_sep 44 s)"

text \<open>\<^verbatim>\<open>sep.join(pieces)\<close>, the inverse of \<^verbatim>\<open>s.split(sep)\<close>.\<close>

fun join_sep :: "nat \<Rightarrow> pystr list \<Rightarrow> pystr" where
  "join_sep sep [] = []"
| "join_sep sep [p] = p"
| "join_sep sep (p # q # ps) = p @ sep # join_sep sep (q # ps)"

section \<open>Facts about the string methods\<close>

lemma dropWhile_none: "\<forall>x\<in>set xs. \<not> P x \<Longrightarrow> dropWhile P xs = xs"
  by (cases xs) auto

lemma strip_no_space: "\<forall>c\<in>set v. \<not> py_isspace c \<Longrightarrow> strip v = v"
  by (simp add: strip_def dropWhile_none)

lemma split_ws_Nil: "split_ws [] = []"
  by (simp add: split_ws.simps [of "[]"])

text \<open>A token of \<^verbatim>\<open>s.split()\<close> is not empty and holds no whitespace.\<close>

lemma split_ws_tokens:
  "v \<in> set (split_ws s) \<Longrightarrow> v \<noteq> [] \<and> (\<forall>c\<in>set v. \<not> py_isspace c)"
proof (induction s arbitrary: v rule: split_ws.induct)
  case (1 s)
  show ?case
  proof (cases "dropWhile py_isspace s")
    case Nil
    with "1.prems" show ?thesis by (simp add: split_ws.simps [of s])
  next
    case (Cons c r)
    then have c: "\<not> py_isspace c"
      using hd_dropWhile [of py_isspace s] by simp
    from Cons "1.prems" consider
        "v = c # takeWhile (\<lambda>x. \<not> py_isspace x) r"
      | "v \<in> set (split_ws (dropWhile (\<lambda>x. \<not> py_isspace x) r))"
      by (auto simp: split_ws.simps [of s])
    then show ?thesis
    proof cases
      case 1
      with c show ?thesis by (auto dest: set_takeWhileD)
    next
      case 2
      with "1.IH" [OF Cons] show ?thesis by blast
    qed
  qed
qed

text \<open>A piece of \<^verbatim>\<open>s.split(sep)\<close> is made of code points of \<open>s\<close> other than \<open>sep\<close>.\<close>

lemma split_sep_pieces: "v \<in> set (split_sep sep s) \<Longrightarrow> set v \<subseteq> set s \<and> sep \<notin> set v"
proof (induction sep s arbitrary: v rule: split_sep.induct)
  case (1 sep s)
  show ?case
  proof (cases "dropWhile (\<lambda>x. x \<noteq> sep) s")
    case Nil
    with "1.prems" have "v = takeWhile (\<lambda>x. x \<noteq> sep) s"
      by (simp add: split_sep.simps [of sep s])
    then show ?thesis by (auto dest: set_takeWhileD)
  next
    case (Cons c r)
    from Cons "1.prems" consider "v = takeWhile (\<lambda>x. x \<noteq> sep) s" | "v \<in> set (split_sep sep r)"
      by (auto simp: split_sep.simps [of sep s])
    then show ?thesis
    proof cases
      case 1
      then show ?thesis by (auto dest: set_takeWhileD)
    next
      case 2
      from "1.IH" [OF Cons 2] have "set v \<subseteq> set r" "sep \<notin> set v" by simp_all
      moreover have "set r \<subseteq> set s"
        using set_dropWhileD [of _ "\<lambda>x. x \<noteq> sep" s] Cons by auto
      ultimately show ?thesis by blast
    qed
  qed
qed

text \<open>Joining the pieces of \<^verbatim>\<open>s.split(sep)\<close> with \<open>sep\<close> gives \<open>s\<close> back.\<close>

lemma split_sep_join: "join_sep sep (split_sep sep s) = s"
proof (induction sep s rule: split_sep.induct)
  case (1 sep s)
  show ?case
  proof (cases "dropWhile (\<lambda>x. x \<noteq> sep) s")
    case Nil
    then have "takeWhile (\<lambda>x. x \<noteq> sep) s = s" by simp
    moreover have "split_sep sep s = [takeWhile (\<lambda>x. x \<noteq> sep) s]"
      by (simp only: split_sep.simps [of sep s] Nil list.case)
    ultimately show ?thesis by simp
  next
    case (Cons c r)
    then have c: "c = sep"
      using hd_dropWhile [of "\<lambda>x. x \<noteq> sep" s] by simp
    obtain q qs where q: "split_sep sep r = q # qs"
      by (simp add: split_sep.simps [of sep r])
    have "join_sep sep (split_sep sep s)
        = takeWhile (\<lambda>x. x \<noteq> sep) s @ sep # join_sep sep (split_sep sep r)"
      using Cons q by (simp add: split_sep.simps [of sep s])
    also have "\<dots> = takeWhile (\<lambda>x. x \<noteq> sep) s @ dropWhile (\<lambda>x. x \<noteq> sep) s"
      using "1.IH" [OF Cons] Cons c by simp
    finally show ?thesis by simp
  qed
qed

section \<open>The loop of \<^verbatim>\<open>add_hashtags\<close>\<close>

lemma join_tags_Nil [simp]: "join_tags [] = []"
  by (simp add: join_tags_def)

lemma join_tags_Cons [simp]: "join_tags (h # hs) = [32] @ h @ join_tags hs"
  by (simp add: join_tags_def)

text \<open>
  What one run of the loop does to the set \<open>hs\<close>: a first part \<open>app\<close> is popped and
  appended, at most one element \<open>rej\<close> is popped and rejected, and \<open>rest\<close> is never
  popped. The body runs once for each popped element.
\<close>

lemma add_hashtags_loop_decomp:
  "\<exists>app rej rest. hs = app @ rej @ rest \<and> length rej \<le> 1 \<and>
     add_hashtags_loop t hs lim n = (t @ join_tags app, rest, n + length app + length rej) \<and>
     (\<forall>r\<in>set rej. \<not> int (length (t @ join_tags app)) + int (length r) + 1 < lim) \<and>
     (rej = [] \<longrightarrow> rest = []) \<and>
     (app \<noteq> [] \<longrightarrow> int (length (t @ join_tags app)) < lim)"
proof (induction hs arbitrary: t n)
  case Nil
  show ?case by simp
next
  case (Cons ht hs)
  show ?case
  proof (cases "int (length t) + int (length ht) + 1 < lim")
    case False
    then have "add_hashtags_loop t (ht # hs) lim n
        = (t @ join_tags [], hs, n + length ([]::pystr list) + length [ht])"
      by simp
    with False show ?thesis
      by (intro exI [of _ "[]"] exI [of _ "[ht]"] exI [of _ hs]) simp
  next
    case True
    from Cons.IH [of "t @ [32] @ ht" "Suc n"]
    obtain app rej rest where d: "hs = app @ rej @ rest" "length rej \<le> 1"
      "add_hashtags_loop (t @ [32] @ ht) hs lim (Suc n)
         = ((t @ [32] @ ht) @ join_tags app, rest, Suc n + length app + length rej)"
      "\<forall>r\<in>set rej. \<not> int (length ((t @ [32] @ ht) @ join_tags app)) + int (length r) + 1 < lim"
      "rej = [] \<longrightarrow> rest = []"
      "app \<noteq> [] \<longrightarrow> int (length ((t @ [32] @ ht) @ join_tags app)) < lim"
      by blast
    have len: "int (length (t @ join_tags (ht # app))) < lim"
    proof (cases "app = []")
      case True
      with \<open>int (length t) + int (length ht) + 1 < lim\<close> show ?thesis by simp
    next
      case False
      with d(6) show ?thesis by simp
    qed
    from True d(3) have "add_hashtags_loop t (ht # hs) lim n
        = (t @ join_tags (ht # app), rest, n + length (ht # app) + length rej)"
      by simp
    with d len show ?thesis
      by (intro exI [of _ "ht # app"] exI [of _ rej] exI [of _ rest]) simp
  qed
qed

section \<open>Properties of \<^verbatim>\<open>add_hashtags\<close>\<close>

text \<open>
  C1. The claim: after every call the hashtag set is empty, also when the loop stops
  early. The docstring of \<^verbatim>\<open>add_hashtags\<close> says the same, but the loop leaves with
  \<^verbatim>\<open>break\<close> at the first hashtag that does not fit and pops nothing more. With the
  text \<^verbatim>\<open>Hello\<close>, the set of \<^verbatim>\<open>#aaaa\<close> and \<^verbatim>\<open>#bbbb\<close> and the limit 10, whichever
  element is popped first is rejected and the other one is still in the set when
  the call returns.
\<close>

theorem add_hashtags_leaves_unpopped:
  "add_hashtags (StrV (ustr ''Hello'')) (SetV [ustr ''#aaaa'', ustr ''#bbbb'']) 10
     = (Inr (ustr ''Hello''), SetV [ustr ''#bbbb''])
   \<and> add_hashtags (StrV (ustr ''Hello'')) (SetV [ustr ''#bbbb'', ustr ''#aaaa'']) 10
     = (Inr (ustr ''Hello''), SetV [ustr ''#aaaa''])"
  by code_simp

text \<open>
  C2, as stated: for every text, set and positive limit the returned string is
  shorter than the limit. A text that is already too long is returned as it is: the
  text \<^verbatim>\<open>Hello world\<close> with an empty set and the limit 5 comes back with its 11
  code points.
\<close>

theorem add_hashtags_limit_counterexample:
  "add_hashtags (StrV (ustr ''Hello world'')) (SetV []) 5 = (Inr (ustr ''Hello world''), SetV [])
   \<and> \<not> int (length (ustr ''Hello world'')) < 5"
  by code_simp

text \<open>
  C2, amended: the call returns a string; when the text is shorter than the limit,
  so is the result, and a result that differs from the text is always shorter than
  the limit. The test is strict: a hashtag that would bring the length to
  \<open>lim - 1\<close> is appended, one that would bring it to \<open>lim\<close> is not.
\<close>

theorem add_hashtags_below_limit:
  "(\<exists>t' hs'. add_hashtags (StrV t) (SetV hs) lim = (Inr t', SetV hs') \<and>
      (int (length t) < lim \<longrightarrow> int (length t') < lim) \<and>
      (t' \<noteq> t \<longrightarrow> int (length t') < lim))
   \<and> (int (length t) + int (length ht) + 2 = lim \<longrightarrow>
        add_hashtags (StrV t) (SetV [ht]) lim = (Inr (t @ [32] @ ht), SetV [])
        \<and> int (length (t @ [32] @ ht)) = lim - 1)
   \<and> (int (length t) + int (length ht) + 1 = lim \<longrightarrow>
        add_hashtags (StrV t) (SetV [ht]) lim = (Inr t, SetV []))"
proof (intro conjI)
  from add_hashtags_loop_decomp [of hs t lim 0]
  obtain app and rej :: "pystr list" and rest where d:
    "add_hashtags_loop t hs lim 0 = (t @ join_tags app, rest, 0 + length app + length rej)"
    "app \<noteq> [] \<longrightarrow> int (length (t @ join_tags app)) < lim"
    by blast
  from d(1) have "add_hashtags (StrV t) (SetV hs) lim = (Inr (t @ join_tags app), SetV rest)"
    by (simp add: add_hashtags_def)
  moreover have "int (length t) < lim \<longrightarrow> int (length (t @ join_tags app)) < lim"
    using d(2) by (cases "app = []") simp_all
  moreover have "t @ join_tags app \<noteq> t \<longrightarrow> int (length (t @ join_tags app)) < lim"
    using d(2) by (cases "app = []") simp_all
  ultimately show "\<exists>t' hs'. add_hashtags (StrV t) (SetV hs) lim = (Inr t', SetV hs') \<and>
      (int (length t) < lim \<longrightarrow> int (length t') < lim) \<and>
      (t' \<noteq> t \<longrightarrow> int (length t') < lim)"
    by blast
next
  show "int (length t) + int (length ht) + 2 = lim \<longrightarrow>
        add_hashtags (StrV t) (SetV [ht]) lim = (Inr (t @ [32] @ ht), SetV [])
        \<and> int (length (t @ [32] @ ht)) = lim - 1"
    by (simp add: add_hashtags_def)
next
  show "int (length t) + int (length ht) + 1 = lim \<longrightarrow>
        add_hashtags (StrV t) (SetV [ht]) lim = (Inr t, SetV [])"
    by (simp add: add_hashtags_def)
qed

theorem add_hashtags_below_limit_witness:
  "int (length (ustr ''Hello'')) < 10
   \<and> (\<exists>t' hs'. add_hashtags (StrV (ustr ''Hello'')) (SetV [ustr ''#a'', ustr ''#bb'', ustr ''#c'']) 10
        = (Inr t', SetV hs') \<and> int (length t') < 10)
   \<and> int (length (ustr ''Hello'')) + int (length (ustr ''#aa'')) + 2 = 10
   \<and> add_hashtags (StrV (ustr ''Hello'')) (SetV [ustr ''#aa'']) 10
        = (Inr (ustr ''Hello'' @ [32] @ ustr ''#aa''), SetV [])
   \<and> int (length (ustr ''Hello'')) + int (length (ustr ''#aaa'')) + 1 = 10
   \<and> add_hashtags (StrV (ustr ''Hello'')) (SetV [ustr ''#aaa'']) 10 = (Inr (ustr ''Hello''), SetV [])"
proof -
  have h: "int (length (ustr ''Hello'')) < 10"
    "int (length (ustr ''Hello'')) + int (length (ustr ''#aa'')) + 2 = 10"
    "int (length (ustr ''Hello'')) + int (length (ustr ''#aaa'')) + 1 = 10"
    by (simp_all add: ustr_def)
  from add_hashtags_below_limit
         [of "ustr ''Hello''" "[ustr ''#a'', ustr ''#bb'', ustr ''#c'']" 10 "ustr ''#aa''"]
       add_hashtags_below_limit [of "ustr ''Hello''" "[]" 10 "ustr ''#aaa''"] h
  show ?thesis by blast
qed



text \<open>
  C9. The pop order splits into the elements popped and appended, at most one element
  popped and rejected, and the elements never popped. The returned text holds the
  appended ones only, the set holds the never-popped ones only (exactly those, when
  the pop order lists each element once), the rejected element failed the fit test
  against the returned text, and without a rejected element nothing is left.
\<close>

theorem add_hashtags_rejected_not_restored:
  "\<exists>app rej rest. hs = app @ rej @ rest \<and> length rej \<le> 1
     \<and> add_hashtags (StrV t) (SetV hs) lim = (Inr (t @ join_tags app), SetV rest)
     \<and> add_hashtags_iterations t hs lim = length app + length rej
     \<and> (\<forall>r\<in>set rej. \<not> int (length (t @ join_tags app)) + int (length r) + 1 < lim)
     \<and> (rej = [] \<longrightarrow> rest = [])
     \<and> (distinct hs \<longrightarrow> set rest = set hs - set (app @ rej))"
proof -
  from add_hashtags_loop_decomp [of hs t lim 0]
  obtain app rej rest where d: "hs = app @ rej @ rest" "length rej \<le> 1"
    "add_hashtags_loop t hs lim 0 = (t @ join_tags app, rest, 0 + length app + length rej)"
    "\<forall>r\<in>set rej. \<not> int (length (t @ join_tags app)) + int (length r) + 1 < lim"
    "rej = [] \<longrightarrow> rest = []"
    by blast
  from d(3) have k: "add_hashtags_iterations t hs lim = length app + length rej"
    by (simp add: add_hashtags_iterations_def)
  from d(3) have r: "add_hashtags (StrV t) (SetV hs) lim = (Inr (t @ join_tags app), SetV rest)"
    by (simp add: add_hashtags_def)
  have s: "distinct hs \<longrightarrow> set rest = set hs - set (app @ rej)"
    using d(1) by auto
  from d(1,2,4,5) k r s show ?thesis by blast
qed

theorem add_hashtags_rejected_not_restored_witness:
  "distinct [ustr ''#a'', ustr ''#bb'', ustr ''#c'']
   \<and> add_hashtags (StrV (ustr ''Hello'')) (SetV [ustr ''#a'', ustr ''#bb'', ustr ''#c'']) 10
       = (Inr (ustr ''Hello #a''), SetV [ustr ''#c''])
   \<and> (\<exists>app rej. [ustr ''#a'', ustr ''#bb'', ustr ''#c''] = app @ rej @ [ustr ''#c'']
         \<and> length rej \<le> 1
         \<and> ustr ''Hello #a'' = ustr ''Hello'' @ join_tags app
         \<and> set [ustr ''#c''] = set [ustr ''#a'', ustr ''#bb'', ustr ''#c''] - set (app @ rej))"
proof -
  have d: "distinct [ustr ''#a'', ustr ''#bb'', ustr ''#c'']" by (simp add: ustr_def)
  have e: "add_hashtags (StrV (ustr ''Hello'')) (SetV [ustr ''#a'', ustr ''#bb'', ustr ''#c'']) 10
       = (Inr (ustr ''Hello #a''), SetV [ustr ''#c''])" by code_simp
  from add_hashtags_rejected_not_restored
         [of "[ustr ''#a'', ustr ''#bb'', ustr ''#c'']" "ustr ''Hello''" 10]
  obtain app rej rest where w:
    "[ustr ''#a'', ustr ''#bb'', ustr ''#c''] = app @ rej @ rest" "length rej \<le> 1"
    "add_hashtags (StrV (ustr ''Hello'')) (SetV [ustr ''#a'', ustr ''#bb'', ustr ''#c'']) 10
       = (Inr (ustr ''Hello'' @ join_tags app), SetV rest)"
    "distinct [ustr ''#a'', ustr ''#bb'', ustr ''#c''] \<longrightarrow>
       set rest = set [ustr ''#a'', ustr ''#bb'', ustr ''#c''] - set (app @ rej)"
    by blast
  from w(3) e have "rest = [ustr ''#c'']" "ustr ''Hello #a'' = ustr ''Hello'' @ join_tags app"
    by simp_all
  with w d e show ?thesis by blast
qed

text \<open>
  C10. The returned string is the input text followed by blocks of one space and one
  element, for the first \<open>k\<close> elements in pop order; each of them is an element of
  the set. A text at least as long as the limit is returned unchanged.
\<close>

theorem add_hashtags_prefix_blocks:
  "\<exists>k. k \<le> length hs \<and> set (take k hs) \<subseteq> set hs
     \<and> fst (add_hashtags (StrV t) (SetV hs) lim) = Inr (t @ join_tags (take k hs))
     \<and> (lim \<le> int (length t) \<longrightarrow> fst (add_hashtags (StrV t) (SetV hs) lim) = Inr t)"
proof -
  from add_hashtags_loop_decomp [of hs t lim 0]
  obtain app and rej :: "pystr list" and rest where d: "hs = app @ rej @ rest"
    "add_hashtags_loop t hs lim 0 = (t @ join_tags app, rest, 0 + length app + length rej)"
    "app \<noteq> [] \<longrightarrow> int (length (t @ join_tags app)) < lim"
    by blast
  from d(1) have a: "app = take (length app) hs" "length app \<le> length hs" by simp_all
  from d(2) have r: "fst (add_hashtags (StrV t) (SetV hs) lim) = Inr (t @ join_tags app)"
    by (simp add: add_hashtags_def)
  have o: "lim \<le> int (length t) \<longrightarrow> fst (add_hashtags (StrV t) (SetV hs) lim) = Inr t"
  proof
    assume "lim \<le> int (length t)"
    with d(3) have "app = []" by (cases "app = []") simp_all
    with r show "fst (add_hashtags (StrV t) (SetV hs) lim) = Inr t" by simp
  qed
  have "length app \<le> length hs \<and> set (take (length app) hs) \<subseteq> set hs
     \<and> fst (add_hashtags (StrV t) (SetV hs) lim) = Inr (t @ join_tags (take (length app) hs))
     \<and> (lim \<le> int (length t) \<longrightarrow> fst (add_hashtags (StrV t) (SetV hs) lim) = Inr t)"
    using a r o set_take_subset [of "length app" hs] by simp
  then show ?thesis by (rule exI)
qed

theorem add_hashtags_prefix_blocks_witness:
  "(5::int) \<le> int (length (ustr ''Hello world''))
   \<and> fst (add_hashtags (StrV (ustr ''Hello world'')) (SetV [ustr ''#a'', ustr ''#b'']) 5)
       = Inr (ustr ''Hello world'')
   \<and> (\<exists>k. k \<le> length [ustr ''#a'', ustr ''#b'']
        \<and> fst (add_hashtags (StrV (ustr ''Hello world'')) (SetV [ustr ''#a'', ustr ''#b'']) 5)
            = Inr (ustr ''Hello world'' @ join_tags (take k [ustr ''#a'', ustr ''#b''])))"
proof -
  have h: "(5::int) \<le> int (length (ustr ''Hello world''))" by (simp add: ustr_def)
  from add_hashtags_prefix_blocks [of "[ustr ''#a'', ustr ''#b'']" "ustr ''Hello world''" 5] h
  show ?thesis by blast
qed

section \<open>Properties of \<^verbatim>\<open>parse_hashtags\<close>\<close>

text \<open>
  C3, as stated: every element of the result in mode \<^verbatim>\<open>space\<close> starts with exactly
  one \<open>#\<close>. Only one leading \<open>#\<close> is removed from a token, so the token \<^verbatim>\<open>##a\<close>
  gives the element \<^verbatim>\<open>##a\<close>.
\<close>

theorem parse_hashtags_space_counterexample:
  "parse_hashtags (StrV (ustr ''##a'')) (StrV (ustr ''space'')) = Inr {ustr ''##a''}
   \<and> \<not> exactly_one_hash (ustr ''##a'')"
  by code_simp

text \<open>
  C3, amended: in mode \<^verbatim>\<open>space\<close> the result is the set of the whitespace-split tokens,
  each with a single leading \<open>#\<close> removed if present and \<open>#\<close> put in front (stripping a
  token changes nothing). Every element starts with \<open>#\<close>, and with exactly one \<open>#\<close>
  precisely when its token did not start with \<^verbatim>\<open>##\<close>.
\<close>

theorem parse_hashtags_space_leading_hash:
  "parse_hashtags (StrV s) (StrV (ustr ''space''))
     = Inr ((\<lambda>v. 35 # removeprefix_hash v) ` set (split_ws s))
   \<and> (\<forall>v\<in>set (split_ws s). startswith_hash (35 # removeprefix_hash v)
        \<and> (exactly_one_hash (35 # removeprefix_hash v) \<longleftrightarrow> take 2 v \<noteq> [35, 35]))"
proof
  have "(\<lambda>v. 35 # removeprefix_hash (strip v)) ` set (split_ws s)
          = (\<lambda>v. 35 # removeprefix_hash v) ` set (split_ws s)"
    by (rule image_cong) (auto simp: strip_no_space dest: split_ws_tokens)
  then show "parse_hashtags (StrV s) (StrV (ustr ''space''))
     = Inr ((\<lambda>v. 35 # removeprefix_hash v) ` set (split_ws s))"
    by (simp add: parse_hashtags_def ustr_def split_ws_Nil)
next
  show "\<forall>v\<in>set (split_ws s). startswith_hash (35 # removeprefix_hash v)
        \<and> (exactly_one_hash (35 # removeprefix_hash v) \<longleftrightarrow> take 2 v \<noteq> [35, 35])"
  proof
    fix v assume "v \<in> set (split_ws s)"
    show "startswith_hash (35 # removeprefix_hash v)
        \<and> (exactly_one_hash (35 # removeprefix_hash v) \<longleftrightarrow> take 2 v \<noteq> [35, 35])"
    proof (cases v)
      case Nil
      then show ?thesis by simp
    next
      case (Cons c r)
      then show ?thesis by (cases r) auto
    qed
  qed
qed

theorem parse_hashtags_space_leading_hash_witness:
  "ustr ''#b'' \<in> set (split_ws (ustr ''a #b'')) \<and>
   parse_hashtags (StrV (ustr ''a #b'')) (StrV (ustr ''space'')) = Inr {ustr ''#a'', ustr ''#b''} \<and>
   exactly_one_hash (35 # removeprefix_hash (ustr ''#b''))"
proof -
  have sp: "split_ws (ustr ''a #b'') = [ustr ''a'', ustr ''#b'']" by code_simp
  have t: "take 2 (ustr ''#b'') \<noteq> [35, 35]" by (simp add: ustr_def)
  have r: "removeprefix_hash (ustr ''a'') = ustr ''a''" "removeprefix_hash (ustr ''#b'') = ustr ''b''"
    by (simp_all add: ustr_def)
  have e: "35 # ustr ''a'' = ustr ''#a''" "35 # ustr ''b'' = ustr ''#b''"
    by (simp_all add: ustr_def)
  from parse_hashtags_space_leading_hash [of "ustr ''a #b''"] sp t r e
  show ?thesis by simp
qed

text \<open>
  C4, as stated: every mode other than \<^verbatim>\<open>comma\<close>, \<^verbatim>\<open>space\<close> and \<^verbatim>\<open>hash\<close> raises
  ValueError, for every string, the empty one included. The empty string is answered
  with the empty set before the mode is looked at.
\<close>

theorem parse_hashtags_empty_counterexample:
  "parse_hashtags (StrV (ustr '''')) (StrV (ustr ''bogus'')) = Inr {}
   \<and> StrV (ustr ''bogus'') \<noteq> StrV (ustr ''comma'')
   \<and> StrV (ustr ''bogus'') \<noteq> StrV (ustr ''space'')
   \<and> StrV (ustr ''bogus'') \<noteq> StrV (ustr ''hash'')"
  by (simp add: parse_hashtags_def ustr_def)

text \<open>
  C4, amended: with a mode other than the three, a non-empty string raises ValueError
  and the empty string returns the empty set.
\<close>

theorem parse_hashtags_unsupported_format:
  "format \<noteq> StrV (ustr ''comma'') \<Longrightarrow> format \<noteq> StrV (ustr ''space'') \<Longrightarrow>
   format \<noteq> StrV (ustr ''hash'') \<Longrightarrow>
   parse_hashtags (StrV s) format = (if s = [] then Inr {} else Inl ValueError)"
  by (simp add: parse_hashtags_def)

theorem parse_hashtags_unsupported_format_witness:
  "StrV (ustr ''bogus'') \<noteq> StrV (ustr ''comma'')
   \<and> StrV (ustr ''bogus'') \<noteq> StrV (ustr ''space'')
   \<and> StrV (ustr ''bogus'') \<noteq> StrV (ustr ''hash'')
   \<and> parse_hashtags (StrV (ustr ''a b'')) (StrV (ustr ''bogus'')) = Inl ValueError
   \<and> parse_hashtags (StrV (ustr ''a b'')) (IntV 7) = Inl ValueError"
proof -
  have h: "StrV (ustr ''bogus'') \<noteq> StrV (ustr ''comma'')"
    "StrV (ustr ''bogus'') \<noteq> StrV (ustr ''space'')"
    "StrV (ustr ''bogus'') \<noteq> StrV (ustr ''hash'')"
    by (simp_all add: ustr_def)
  have n: "ustr ''a b'' \<noteq> []" by (simp add: ustr_def)
  from parse_hashtags_unsupported_format [OF h, of "ustr ''a b''"]
       parse_hashtags_unsupported_format [of "IntV 7" "ustr ''a b''"] h n
  show ?thesis by simp
qed

text \<open>
  C5, as stated: in mode \<^verbatim>\<open>comma\<close> the result is the set of the comma-separated
  pieces, each with all its whitespace removed and \<open>#\<close> put in front. Only U+0020 is
  removed, so the piece \<^verbatim>\<open>a<TAB>b\<close> keeps its tab; and the empty string gives the empty
  set, not the set of the single piece \<open>#\<close>.
\<close>

theorem parse_hashtags_comma_counterexample:
  "parse_hashtags (StrV [97, 9, 98]) (StrV (ustr ''comma'')) = Inr {[35, 97, 9, 98]}
   \<and> comma_spec [97, 9, 98] = {[35, 97, 98]}
   \<and> parse_hashtags (StrV [97, 9, 98]) (StrV (ustr ''comma'')) \<noteq> Inr (comma_spec [97, 9, 98])
   \<and> parse_hashtags (StrV (ustr '''')) (StrV (ustr ''comma'')) = Inr {}
   \<and> comma_spec (ustr '''') = {ustr ''#''}
   \<and> parse_hashtags (StrV (ustr '''')) (StrV (ustr ''comma'')) \<noteq> Inr (comma_spec (ustr ''''))"
  by code_simp

text \<open>
  C5, amended: in mode \<^verbatim>\<open>comma\<close> the empty string gives the empty set, and a
  non-empty string gives the set of its comma-separated pieces, each with every
  U+0020 removed and \<open>#\<close> put in front. That is the set the specification describes
  whenever the string is not empty and holds no whitespace other than U+0020. A piece
  that starts with \<open>#\<close> gives an element that starts with \<^verbatim>\<open>##\<close>.
\<close>

theorem parse_hashtags_comma:
  "parse_hashtags (StrV s) (StrV (ustr ''comma''))
     = (if s = [] then Inr {}
        else Inr ((\<lambda>v. 35 # filter (\<lambda>x. x \<noteq> 32) v) ` set (split_sep 44 s)))
   \<and> (s \<noteq> [] \<and> (\<forall>c\<in>set s. py_isspace c \<longrightarrow> c = 32) \<longrightarrow>
        parse_hashtags (StrV s) (StrV (ustr ''comma'')) = Inr (comma_spec s))
   \<and> (\<forall>v\<in>set (split_sep 44 s). startswith_hash v \<longrightarrow>
        take 2 (35 # filter (\<lambda>x. x \<noteq> 32) v) = [35, 35])"
proof (intro conjI)
  show eq: "parse_hashtags (StrV s) (StrV (ustr ''comma''))
     = (if s = [] then Inr {}
        else Inr ((\<lambda>v. 35 # filter (\<lambda>x. x \<noteq> 32) v) ` set (split_sep 44 s)))"
    by (simp add: parse_hashtags_def replace_space_def)
  show "s \<noteq> [] \<and> (\<forall>c\<in>set s. py_isspace c \<longrightarrow> c = 32) \<longrightarrow>
        parse_hashtags (StrV s) (StrV (ustr ''comma'')) = Inr (comma_spec s)"
  proof
    assume a: "s \<noteq> [] \<and> (\<forall>c\<in>set s. py_isspace c \<longrightarrow> c = 32)"
    have sp: "py_isspace 32" by (simp add: py_isspace_def)
    have "(\<lambda>v. 35 # filter (\<lambda>x. x \<noteq> 32) v) ` set (split_sep 44 s)
        = (\<lambda>v. 35 # filter (\<lambda>x. \<not> py_isspace x) v) ` set (split_sep 44 s)"
    proof (rule image_cong)
      fix v assume "v \<in> set (split_sep 44 s)"
      then have "set v \<subseteq> set s" by (simp add: split_sep_pieces)
      with a sp have "filter (\<lambda>x. x \<noteq> 32) v = filter (\<lambda>x. \<not> py_isspace x) v"
        by (intro filter_cong) auto
      then show "35 # filter (\<lambda>x. x \<noteq> 32) v = 35 # filter (\<lambda>x. \<not> py_isspace x) v"
        by simp
    qed simp
    with a eq show "parse_hashtags (StrV s) (StrV (ustr ''comma'')) = Inr (comma_spec s)"
      by (simp add: comma_spec_def)
  qed
  show "\<forall>v\<in>set (split_sep 44 s). startswith_hash v \<longrightarrow>
        take 2 (35 # filter (\<lambda>x. x \<noteq> 32) v) = [35, 35]"
  proof (intro ballI impI)
    fix v assume "startswith_hash v"
    then show "take 2 (35 # filter (\<lambda>x. x \<noteq> 32) v) = [35, 35]"
      by (cases v) (simp_all add: numeral_2_eq_2)
  qed
qed

theorem parse_hashtags_comma_witness:
  "ustr ''a, #b c'' \<noteq> [] \<and> py_isspace 32
   \<and> ustr ''#bc'' \<in> set (split_sep 44 (ustr ''a,#bc''))
   \<and> startswith_hash (ustr ''#bc'')
   \<and> parse_hashtags (StrV (ustr ''a, #b c'')) (StrV (ustr ''comma''))
       = Inr (comma_spec (ustr ''a, #b c''))
   \<and> comma_spec (ustr ''a, #b c'') = {ustr ''#a'', ustr ''##bc''}
   \<and> take 2 (35 # filter (\<lambda>x. x \<noteq> 32) (ustr ''#bc'')) = [35, 35]"
proof -
  have n: "ustr ''a, #b c'' \<noteq> []" by (simp add: ustr_def)
  have sp: "py_isspace 32" by (simp add: py_isspace_def)
  have w: "\<forall>c\<in>set (ustr ''a, #b c''). py_isspace c \<longrightarrow> c = 32"
    by (simp add: ustr_def py_isspace_def)
  have m: "ustr ''#bc'' \<in> set (split_sep 44 (ustr ''a,#bc''))" by code_simp
  have h: "startswith_hash (ustr ''#bc'')" by (simp add: ustr_def)
  have c: "comma_spec (ustr ''a, #b c'') = {ustr ''#a'', ustr ''##bc''}" by code_simp
  from parse_hashtags_comma [of "ustr ''a, #b c''"] parse_hashtags_comma [of "ustr ''a,#bc''"]
       n sp w m h c
  show ?thesis by blast
qed

text \<open>
  C6. In mode \<^verbatim>\<open>hash\<close> the result is the set of exactly those whitespace-split
  tokens that start with \<open>#\<close>, each as it is.
\<close>

theorem parse_hashtags_hash_tokens:
  "parse_hashtags (StrV s) (StrV (ustr ''hash''))
     = Inr {v \<in> set (split_ws s). startswith_hash v}"
proof -
  have "strip ` set (filter startswith_hash (split_ws s)) = set (filter startswith_hash (split_ws s))"
  proof -
    have "strip ` set (filter startswith_hash (split_ws s))
        = (\<lambda>v. v) ` set (filter startswith_hash (split_ws s))"
      by (rule image_cong) (auto simp: strip_no_space dest: split_ws_tokens)
    then show ?thesis by simp
  qed
  then show ?thesis
    by (simp add: parse_hashtags_def ustr_def split_ws_Nil)
qed

theorem parse_hashtags_hash_tokens_witness:
  "parse_hashtags (StrV (ustr ''a #b  c #d'')) (StrV (ustr ''hash'')) = Inr {ustr ''#b'', ustr ''#d''}"
proof -
  have "split_ws (ustr ''a #b  c #d'') = [ustr ''a'', ustr ''#b'', ustr ''c'', ustr ''#d'']"
    by code_simp
  moreover have "startswith_hash (ustr ''#b'')" "startswith_hash (ustr ''#d'')"
    "\<not> startswith_hash (ustr ''a'')" "\<not> startswith_hash (ustr ''c'')"
    by (simp_all add: ustr_def)
  ultimately show ?thesis
    using parse_hashtags_hash_tokens [of "ustr ''a #b  c #d''"] by auto
qed

text \<open>
  C7. A first argument of \<^verbatim>\<open>parse_hashtags\<close> that is not a string raises TypeError,
  whatever the mode; a \<^verbatim>\<open>text\<close> that is not a string or a \<^verbatim>\<open>hashtags\<close> that is not a
  set makes \<^verbatim>\<open>add_hashtags\<close> raise TypeError and leaves \<^verbatim>\<open>hashtags\<close> as it was.
\<close>

theorem type_errors_raised_first:
  "((\<forall>s. string \<noteq> StrV s) \<longrightarrow> parse_hashtags string format = Inl TypeError)
   \<and> ((\<forall>t. text \<noteq> StrV t) \<or> (\<forall>hs. hashtags \<noteq> SetV hs) \<longrightarrow>
        add_hashtags text hashtags lim = (Inl TypeError, hashtags))"
proof
  show "(\<forall>s. string \<noteq> StrV s) \<longrightarrow> parse_hashtags string format = Inl TypeError"
    by (cases string) (simp_all add: parse_hashtags_def)
  show "(\<forall>t. text \<noteq> StrV t) \<or> (\<forall>hs. hashtags \<noteq> SetV hs) \<longrightarrow>
        add_hashtags text hashtags lim = (Inl TypeError, hashtags)"
    by (cases "text"; cases hashtags) (simp_all add: add_hashtags_def)
qed

theorem type_errors_raised_first_witness:
  "(\<forall>s. IntV 123 \<noteq> StrV s)
   \<and> parse_hashtags (IntV 123) (StrV (ustr ''comma'')) = Inl TypeError
   \<and> parse_hashtags (IntV 123) (StrV (ustr ''bogus'')) = Inl TypeError
   \<and> (\<forall>hs. ListV [ustr ''#a''] \<noteq> SetV hs)
   \<and> add_hashtags (StrV (ustr ''Hello'')) (ListV [ustr ''#a'']) 10
       = (Inl TypeError, ListV [ustr ''#a''])
   \<and> add_hashtags (IntV 123) (SetV [ustr ''#a'']) 10 = (Inl TypeError, SetV [ustr ''#a''])"
proof -
  have a: "\<forall>s. IntV 123 \<noteq> StrV s" by simp
  have b: "\<forall>hs. ListV [ustr ''#a''] \<noteq> SetV hs" by simp
  from type_errors_raised_first [of "IntV 123" "StrV (ustr ''comma'')" "IntV 123" "SetV [ustr ''#a'']" 10]
       type_errors_raised_first [of "IntV 123" "StrV (ustr ''bogus'')" "StrV (ustr ''Hello'')"
          "ListV [ustr ''#a'']" 10] a b
  show ?thesis by blast
qed

end
